theory Spec2Isabelle
  imports Main
begin

section \<open>Data model\<close>

text \<open>
  The module \<^verbatim>\<open>hive_utils/hive_client.py\<close> wraps a generated Thrift client. It raises
  one exception class of its own, \<^verbatim>\<open>HiveClientException\<close>, whose arguments are kept as
  the list of strings the constructor receives; an \<^verbatim>\<open>assert\<close> raises
  \<^verbatim>\<open>AssertionError\<close>; an exception raised by the remote stub is a
  \<^verbatim>\<open>RemoteException\<close> carrying its name.
\<close>

datatype error =
    HiveClientException "string list"
  | AssertionError
  | RemoteException string

text \<open>
  \<^verbatim>\<open>hive_metastore.ttypes.FieldSchema(name, type, comment)\<close> and the part of the metastore's
  table object that the client reads and writes, \<^verbatim>\<open>table.sd.cols\<close>.
\<close>

record FieldSchema =
  fs_name :: string
  fs_type :: string
  fs_comment :: string

record Table =
  sd_cols :: "FieldSchema list"

text \<open>
  Every call on the transport and on the client stub is recorded, in the order the calls
  are made, in a trace of events.
\<close>

datatype event =
    Open
  | Close
  | GetDatabase string
  | Execute string
  | GetThriftSchema
  | FetchN int
  | GetTable string string
  | AlterTable string string "FieldSchema list"

text \<open>
  The world a client runs in: the buffered transport (whether it is open, and its
  \<^verbatim>\<open>keep_open\<close> attribute, which does not exist until a session sets it), the trace,
  and the remote service: what \<^verbatim>\<open>get_database\<close> answers for a name (an exception, or
  an object with its truth value), whether \<^verbatim>\<open>execute\<close> rejects a query, the field names
  of the result schema, the batch that the \<open>i\<close>-th call of \<^verbatim>\<open>fetchN\<close> returns, and
  what \<^verbatim>\<open>get_table\<close> answers for a database and a table name.
\<close>

record world =
  is_open :: bool
  keep_open :: "bool option"
  trace :: "event list"
  databases :: "string \<Rightarrow> error + bool"
  query_fault :: "string \<Rightarrow> error option"
  field_names :: "string list"
  fetch_reply :: "nat \<Rightarrow> string list"
  fetched :: nat
  tables :: "string \<Rightarrow> string \<Rightarrow> error + Table"

type_synonym 'a io = "world \<Rightarrow> (error + 'a) \<times> world"

definition raises :: "error \<Rightarrow> 'a io" where
  "raises e w = (Inl e, w)"

section \<open>The transport and the client stub\<close>

definition transport_open :: "world \<Rightarrow> world" where
  "transport_open w = w\<lparr>is_open := True, trace := trace w @ [Open]\<rparr>"

definition transport_close :: "world \<Rightarrow> world" where
  "transport_close w = w\<lparr>is_open := False, trace := trace w @ [Close]\<rparr>"

text \<open>The truth value of \<^verbatim>\<open>getattr(transport, 'keep_open', None)\<close>.\<close>

definition pinned :: "world \<Rightarrow> bool" where
  "pinned w = (keep_open w = Some True)"

definition client_get_database :: "string \<Rightarrow> bool io" where
  "client_get_database d w = (databases w d, w\<lparr>trace := trace w @ [GetDatabase d]\<rparr>)"

definition client_execute :: "string \<Rightarrow> unit io" where
  "client_execute q w =
     ((case query_fault w q of Some e \<Rightarrow> Inl e | None \<Rightarrow> Inr ()),
      w\<lparr>trace := trace w @ [Execute q]\<rparr>)"

definition client_getThriftSchema :: "world \<Rightarrow> string list \<times> world" where
  "client_getThriftSchema w = (field_names w, w\<lparr>trace := trace w @ [GetThriftSchema]\<rparr>)"

definition client_fetchN :: "int \<Rightarrow> world \<Rightarrow> string list \<times> world" where
  "client_fetchN n w =
     (fetch_reply w (fetched w),
      w\<lparr>fetched := Suc (fetched w), trace := trace w @ [FetchN n]\<rparr>)"

definition client_get_table :: "string \<Rightarrow> string \<Rightarrow> Table io" where
  "client_get_table d t w = (tables w d t, w\<lparr>trace := trace w @ [GetTable d t]\<rparr>)"

definition client_alter_table :: "string \<Rightarrow> string \<Rightarrow> Table \<Rightarrow> world \<Rightarrow> world" where
  "client_alter_table d t tbl w =
     w\<lparr>tables := (tables w)(d := (tables w d)(t := Inr tbl)),
       trace := trace w @ [AlterTable d t (sd_cols tbl)]\<rparr>"

section \<open>Scoped acquisition and sessions\<close>

text \<open>
  \<^verbatim>\<open>openclose\<close> is a generator-based context manager: the code before its \<^verbatim>\<open>yield\<close>
  runs on entry to the \<^verbatim>\<open>with\<close> block, the code after it when the block is left
  normally. An exception of the block is thrown into the generator at the \<^verbatim>\<open>yield\<close>,
  where no handler stands, so the code after the \<^verbatim>\<open>yield\<close> is skipped and the
  exception goes on to the caller.
\<close>

definition openclose_enter :: "world \<Rightarrow> world" where
  "openclose_enter w = (if \<not> pinned w then transport_open w else w)"

definition openclose_exit :: "world \<Rightarrow> world" where
  "openclose_exit w = (if \<not> pinned w then transport_close w else w)"

definition openclose :: "'a io \<Rightarrow> 'a io" where
  "openclose body w =
     (case body (openclose_enter w) of
        (Inl e, w') \<Rightarrow> (Inl e, w')
      | (Inr v, w') \<Rightarrow> (Inr v, openclose_exit w'))"

definition session_enter :: "world \<Rightarrow> world" where
  "session_enter w = (transport_open w)\<lparr>keep_open := Some True\<rparr>"

definition session_exit :: "world \<Rightarrow> world" where
  "session_exit w = (transport_close w)\<lparr>keep_open := Some False\<rparr>"

definition session :: "'a io \<Rightarrow> 'a io" where
  "session body w =
     (case body (session_enter w) of
        (Inl e, w') \<Rightarrow> (Inl e, w')
      | (Inr v, w') \<Rightarrow> (Inr v, session_exit w'))"

section \<open>The client\<close>

text \<open>
  A client object holds the transport and the stub, which live in the world, and the name
  of the database it was built for.
\<close>

record HiveClient =
  db_name :: string

text \<open>
  \<^verbatim>\<open>HiveClient.__init__(server, port, db)\<close> builds a new transport, closed and without
  a \<^verbatim>\<open>keep_open\<close> attribute, and asserts inside \<^verbatim>\<open>openclose\<close> that
  \<^verbatim>\<open>get_database(db)\<close> returns a true value. When the call or the assertion raises,
  no client object comes into being.
\<close>

definition init :: "string \<Rightarrow> int \<Rightarrow> string \<Rightarrow> world \<Rightarrow> (error + HiveClient) \<times> world" where
  "init server port db w0 =
     (case openclose
             (\<lambda>w. case client_get_database db w of
                     (Inl e, w1) \<Rightarrow> (Inl e, w1)
                   | (Inr found, w1) \<Rightarrow>
                       if found then (Inr (), w1) else (Inl AssertionError, w1))
             (w0\<lparr>is_open := False, keep_open := None\<rparr>) of
        (Inl e, w') \<Rightarrow> (Inl e, w')
      | (Inr u, w') \<Rightarrow> (Inr \<lparr>db_name = db\<rparr>, w'))"

subsection \<open>Query results\<close>

text \<open>
  \<^verbatim>\<open>row.split('\t')\<close>: the pieces between the separators, so that a string without a
  separator (the empty one too) is its own single piece.
\<close>

fun py_split :: "char \<Rightarrow> string \<Rightarrow> string list" where
  "py_split c [] = [[]]"
| "py_split c (x # xs) =
     (if x = c then [] # py_split c xs
      else (case py_split c xs of [] \<Rightarrow> [[x]] | p # ps \<Rightarrow> (x # p) # ps))"

definition tab :: char where
  "tab = CHR 0x09"

text \<open>
  \<^verbatim>\<open>dict(zip(stypes, row.split('\t')))\<close>: \<^verbatim>\<open>zip\<close> stops at the shorter list, and of
  two pairs with the same key \<^verbatim>\<open>dict\<close> keeps the later one.
\<close>

type_synonym dict = "string \<rightharpoonup> string"

definition row_dict :: "string list \<Rightarrow> string \<Rightarrow> dict" where
  "row_dict stypes row = map_of (rev (zip stypes (py_split tab row)))"

text \<open>\<^verbatim>\<open>len\<close> of a dictionary.\<close>

definition dict_len :: "dict \<Rightarrow> nat" where
  "dict_len m = card (dom m)"

text \<open>
  \<^verbatim>\<open>execute\<close> is a generator function: calling it runs none of its body and returns a
  generator object. Each \<^verbatim>\<open>next\<close> on that object runs the body up to the next
  \<^verbatim>\<open>yield\<close>. Between two calls the object is suspended at the \<^verbatim>\<open>yield\<close> and holds
  the field names and the rows of the current batch that the \<^verbatim>\<open>for\<close> loop has not
  reached yet; before the first call it holds the query only.
\<close>

datatype generator =
    Created string
  | Suspended "string list" "string list"
  | Finished

datatype 'a resumption =
    Yield 'a
  | StopIteration
  | Raise error

definition execute :: "string \<Rightarrow> generator" where
  "execute query = Created query"

text \<open>
  One round of \<^verbatim>\<open>while True\<close>: fetch a batch of 500; leave the loop, and with it the
  \<^verbatim>\<open>with\<close> block, when the batch is empty; otherwise yield the record of its first row.
\<close>

definition fetch_batch ::
  "string list \<Rightarrow> world \<Rightarrow> dict resumption \<times> generator \<times> world" where
  "fetch_batch stypes w =
     (case client_fetchN 500 w of
        (rows, w1) \<Rightarrow>
          (case rows of
             [] \<Rightarrow> (StopIteration, Finished, openclose_exit w1)
           | row # rest \<Rightarrow> (Yield (row_dict stypes row), Suspended stypes rest, w1)))"

fun gen_next :: "generator \<Rightarrow> world \<Rightarrow> dict resumption \<times> generator \<times> world" where
  "gen_next (Created query) w =
     (case client_execute query (openclose_enter w) of
        (Inl e, w1) \<Rightarrow> (Raise e, Finished, w1)
      | (Inr u, w1) \<Rightarrow>
          (case client_getThriftSchema w1 of
             (stypes, w2) \<Rightarrow> fetch_batch stypes w2))"
| "gen_next (Suspended stypes (row # rest)) w =
     (Yield (row_dict stypes row), Suspended stypes rest, w)"
| "gen_next (Suspended stypes []) w = fetch_batch stypes w"
| "gen_next Finished w = (StopIteration, Finished, w)"

text \<open>
  A consumer that takes every record, as \<^verbatim>\<open>list(client.execute(q))\<close> does. It gives up
  after \<open>n\<close> calls of \<^verbatim>\<open>next\<close>: a service that never sends an empty batch keeps the
  generator going for ever. The result is the records, the exception that ended the
  iteration if one did, and the world.
\<close>

fun drain :: "nat \<Rightarrow> generator \<Rightarrow> world \<Rightarrow> (dict list \<times> error option \<times> world) option" where
  "drain 0 g w = None"
| "drain (Suc n) g w =
     (case gen_next g w of
        (Yield r, g', w') \<Rightarrow>
          (case drain n g' w' of
             None \<Rightarrow> None
           | Some (rs, e, w'') \<Rightarrow> Some (r # rs, e, w''))
      | (StopIteration, g', w') \<Rightarrow> Some ([], None, w')
      | (Raise e, g', w') \<Rightarrow> Some ([], Some e, w'))"

text \<open>The rows a suspended generator holds.\<close>

fun buffered :: "generator \<Rightarrow> string list" where
  "buffered (Suspended stypes rows) = rows"
| "buffered g = []"

text \<open>The field names a suspended generator holds.\<close>

fun names_of :: "generator \<Rightarrow> string list option" where
  "names_of (Suspended stypes rows) = Some stypes"
| "names_of g = None"

subsection \<open>Table metadata\<close>

definition get_table :: "HiveClient \<Rightarrow> string \<Rightarrow> Table io" where
  "get_table self table_name =
     openclose
       (\<lambda>w. case client_get_table (db_name self) table_name w of
               (Inl e, w1) \<Rightarrow>
                 (Inl (HiveClientException [''Table '' @ table_name @ '' does not exist'']), w1)
             | (Inr table, w1) \<Rightarrow> (Inr table, w1))"

definition get_columns :: "HiveClient \<Rightarrow> string \<Rightarrow> (string \<times> string) list io" where
  "get_columns self table_name =
     openclose
       (\<lambda>w. case client_get_table (db_name self) table_name w of
               (Inl e, w1) \<Rightarrow> (Inl e, w1)
             | (Inr table, w1) \<Rightarrow>
                 (Inr (map (\<lambda>col. (fs_name col, fs_type col)) (sd_cols table)), w1))"

text \<open>
  \<^verbatim>\<open>column_name in table.sd.cols\<close> compares a string with the column objects of the
  list. Python's \<^verbatim>\<open>==\<close> between a \<^verbatim>\<open>str\<close> and a Thrift struct is false: the string
  does not know the other class, and the struct's generated \<^verbatim>\<open>__eq__\<close> asks for an
  instance of its own class first. Two values are equal only when they are of the same
  class and have the same content, which is the equality of this datatype.
\<close>

datatype pyobj =
    PyStr string
  | PyFieldSchema FieldSchema

definition py_in :: "pyobj \<Rightarrow> pyobj list \<Rightarrow> bool" where
  "py_in x xs = (x \<in> set xs)"

definition add_column :: "HiveClient \<Rightarrow> string \<Rightarrow> string \<Rightarrow> string \<Rightarrow> string \<Rightarrow> unit io" where
  "add_column self table_name column_name data_type comment =
     openclose
       (\<lambda>w. case client_get_table (db_name self) table_name w of
               (Inl e, w1) \<Rightarrow> (Inl e, w1)
             | (Inr table, w1) \<Rightarrow>
                 if py_in (PyStr column_name) (map PyFieldSchema (sd_cols table))
                 then (Inl (HiveClientException
                              [''Table %s already has column %s'', table_name, column_name]), w1)
                 else
                   (let new_column =
                          \<lparr>fs_name = column_name, fs_type = data_type, fs_comment = comment\<rparr>;
                        table' = table\<lparr>sd_cols := sd_cols table @ [new_column]\<rparr>
                    in (Inr (), client_alter_table (db_name self) table_name table' w1)))"

text \<open>
  \<^verbatim>\<open>len\<close> is an integer, so \<^verbatim>\<open>len(table.sd.cols) - 1\<close> is \<open>-1\<close> for an empty list.
\<close>

definition remove_column :: "HiveClient \<Rightarrow> string \<Rightarrow> string \<Rightarrow> unit io" where
  "remove_column self table_name column_name =
     openclose
       (\<lambda>w. case client_get_table (db_name self) table_name w of
               (Inl e, w1) \<Rightarrow> (Inl e, w1)
             | (Inr table, w1) \<Rightarrow>
                 (let num_cols = int (length (sd_cols table));
                      table' = table\<lparr>sd_cols :=
                                 filter (\<lambda>col. fs_name col \<noteq> column_name) (sd_cols table)\<rparr>
                  in if int (length (sd_cols table')) - 1 = num_cols
                     then (Inr (), client_alter_table (db_name self) table_name table' w1)
                     else (Inl (HiveClientException
                                  [''Table '' @ table_name @ '' does not have column ''
                                     @ column_name]), w1)))"

text \<open>
  \<^verbatim>\<open>columns_to_alter\<close> holds references to column objects of \<^verbatim>\<open>table.sd.cols\<close>, here
  their positions in that list (the objects come out of one deserialised reply, so no
  two positions share an object). The loop assigns the type through the reference and
  submits the whole table after every assignment.
\<close>

fun alter_each :: "string \<Rightarrow> string \<Rightarrow> string \<Rightarrow> nat list \<Rightarrow> Table \<Rightarrow> unit io" where
  "alter_each db table_name data_type [] table w = (Inr (), w)"
| "alter_each db table_name data_type (i # is) table w =
     (let table' = table\<lparr>sd_cols := (sd_cols table)[i := (sd_cols table ! i)\<lparr>fs_type := data_type\<rparr>]\<rparr>
      in alter_each db table_name data_type is table' (client_alter_table db table_name table' w))"

definition alter_column_type ::
  "HiveClient \<Rightarrow> string \<Rightarrow> string \<Rightarrow> string \<Rightarrow> string \<Rightarrow> unit io" where
  "alter_column_type self table_name column_name data_type comment =
     openclose
       (\<lambda>w. case client_get_table (db_name self) table_name w of
               (Inl e, w1) \<Rightarrow> (Inl e, w1)
             | (Inr table, w1) \<Rightarrow>
                 (let col_names = map fs_name (sd_cols table)
                  in if column_name \<notin> set col_names
                     then (Inl (HiveClientException
                                  [''Table %s does not have column %s'', table_name, column_name]),
                           w1)
                     else
                       (let columns_to_alter =
                              filter (\<lambda>i. fs_name (sd_cols table ! i) = column_name \<and>
                                           fs_type (sd_cols table ! i) \<noteq> data_type)
                                [0..<length (sd_cols table)]
                        in alter_each (db_name self) table_name data_type columns_to_alter
                             table w1)))"

section \<open>Observations\<close>

text \<open>The events a run adds to the trace, given the world it started from.\<close>

definition events_since :: "world \<Rightarrow> world \<Rightarrow> event list" where
  "events_since w w' = drop (length (trace w)) (trace w')"

text \<open>The open and close transitions among some events.\<close>

definition transitions :: "event list \<Rightarrow> event list" where
  "transitions es = filter (\<lambda>e. e = Open \<or> e = Close) es"

text \<open>The schemas submitted with \<^verbatim>\<open>alter_table\<close> among some events.\<close>

fun submits :: "event list \<Rightarrow> FieldSchema list list" where
  "submits [] = []"
| "submits (AlterTable d t cols # es) = cols # submits es"
| "submits (e # es) = submits es"

text \<open>The batch sizes asked for with \<^verbatim>\<open>fetchN\<close> among some events.\<close>

fun fetches :: "event list \<Rightarrow> int list" where
  "fetches [] = []"
| "fetches (FetchN n # es) = n # fetches es"
| "fetches (e # es) = fetches es"

text \<open>
  A caller's block of operations, each under its own \<^verbatim>\<open>with openclose(transport)\<close>, as
  every method of the client runs: the block stops at the first operation that raises.
\<close>

fun scoped_block :: "unit io list \<Rightarrow> unit io" where
  "scoped_block [] w = (Inr (), w)"
| "scoped_block (operation # rest) w =
     (case openclose operation w of
        (Inl e, w') \<Rightarrow> (Inl e, w')
      | (Inr u, w') \<Rightarrow> scoped_block rest w')"

text \<open>
  Between two worlds the transport was left alone: it is as open as before, its
  \<^verbatim>\<open>keep_open\<close> attribute is what it was, and the trace has grown by events that are
  neither an open nor a close.
\<close>

definition transport_untouched :: "world \<Rightarrow> world \<Rightarrow> bool" where
  "transport_untouched w w' =
     (is_open w' = is_open w \<and> keep_open w' = keep_open w \<and>
      take (length (trace w)) (trace w') = trace w \<and>
      transitions (events_since w w') = [])"

text \<open>An operation that talks to the service only, wherever it starts.\<close>

definition remote_only :: "'a io \<Rightarrow> bool" where
  "remote_only operation = (\<forall>w. transport_untouched w (snd (operation w)))"

text \<open>
  The schemas that the loop of \<^verbatim>\<open>alter_column_type\<close> holds after each of its
  assignments, in order.
\<close>

fun alter_steps :: "string \<Rightarrow> nat list \<Rightarrow> FieldSchema list \<Rightarrow> FieldSchema list list" where
  "alter_steps data_type [] cols = []"
| "alter_steps data_type (i # is) cols =
     (cols[i := (cols ! i)\<lparr>fs_type := data_type\<rparr>]) #
     alter_steps data_type is (cols[i := (cols ! i)\<lparr>fs_type := data_type\<rparr>])"

text \<open>The requested type written into every column of the given name.\<close>

definition retyped :: "string \<Rightarrow> string \<Rightarrow> FieldSchema list \<Rightarrow> FieldSchema list" where
  "retyped column_name data_type cols =
     map (\<lambda>col. if fs_name col = column_name then col\<lparr>fs_type := data_type\<rparr> else col) cols"

section \<open>Example worlds\<close>

text \<open>
  A service for the examples: the database \<^verbatim>\<open>default\<close> exists and holds the table
  \<^verbatim>\<open>t\<close> with the single column \<^verbatim>\<open>x\<close> of type \<^verbatim>\<open>int\<close>; no query is rejected
  and no query has rows. The transport is closed and was never part of a session.
\<close>

definition no_such_object :: error where
  "no_such_object = RemoteException ''NoSuchObjectException''"

definition idle_world :: world where
  "idle_world =
     \<lparr>is_open = False, keep_open = None, trace = [],
      databases = (\<lambda>d. if d = ''default'' then Inr True else Inl no_such_object),
      query_fault = (\<lambda>q. None),
      field_names = [],
      fetch_reply = (\<lambda>i. []),
      fetched = 0,
      tables = (\<lambda>d t. if d = ''default'' \<and> t = ''t''
                  then Inr \<lparr>sd_cols = [\<lparr>fs_name = ''x'', fs_type = ''int'', fs_comment = ''''\<rparr>]\<rparr>
                  else Inl no_such_object)\<rparr>"

section \<open>Scoped acquisition\<close>

text \<open>
  C2 (as amended). A wrapped operation that starts while \<^verbatim>\<open>keep_open\<close> is false runs on
  a transport that \<^verbatim>\<open>openclose\<close> has just opened. When the operation returns, the
  transport is closed right after it. When the operation raises, the exception goes on to
  the caller and \<^verbatim>\<open>openclose\<close> does nothing more: the world is the one the operation
  left.
\<close>

theorem openclose_unpinned:
  assumes "\<not> pinned w" and "body (transport_open w) = (r, w')" and "\<not> pinned w'"
  shows "is_open (transport_open w) \<and> events_since w (transport_open w) = [Open] \<and>
         (case r of
            Inr v \<Rightarrow> openclose body w = (Inr v, transport_close w') \<and>
                     \<not> is_open (transport_close w') \<and>
                     events_since w' (transport_close w') = [Close]
          | Inl e \<Rightarrow> openclose body w = (Inl e, w'))"
  using assms
  by (simp add: openclose_def openclose_enter_def openclose_exit_def transport_open_def
      transport_close_def events_since_def split: sum.splits)

theorem openclose_unpinned_witness:
  "openclose (client_get_database ''default'') idle_world =
     (Inr True, idle_world\<lparr>trace := [Open, GetDatabase ''default'', Close]\<rparr>)"
  using openclose_unpinned [of idle_world "client_get_database ''default''" "Inr True"
      "idle_world\<lparr>is_open := True, trace := [Open, GetDatabase ''default'']\<rparr>"]
  by (simp add: idle_world_def pinned_def transport_open_def transport_close_def
      client_get_database_def)

text \<open>
  C2 as stated fails: an operation that raises under \<^verbatim>\<open>openclose\<close>, with
  \<^verbatim>\<open>keep_open\<close> unset, leaves the transport open, and the trace holds the open and no
  close.
\<close>

theorem openclose_raise_counterexample:
  "\<not> pinned idle_world \<and>
   fst (openclose (raises AssertionError :: unit io) idle_world) = Inl AssertionError \<and>
   is_open (snd (openclose (raises AssertionError :: unit io) idle_world)) \<and>
   trace (snd (openclose (raises AssertionError :: unit io) idle_world)) = [Open]"
  by (simp add: openclose_def openclose_enter_def raises_def idle_world_def pinned_def
      transport_open_def)

section \<open>Sessions\<close>

text \<open>
  C3 (as amended). \<^verbatim>\<open>session\<close> opens the transport and sets \<^verbatim>\<open>keep_open\<close> to true
  before the caller's block runs. When the block returns, the session closes the transport
  and sets \<^verbatim>\<open>keep_open\<close> to false. When the block raises, neither happens: the world is
  the one the block left.
\<close>

theorem session_lifecycle:
  assumes "body (session_enter w) = (r, w')"
  shows "is_open (session_enter w) \<and> keep_open (session_enter w) = Some True \<and>
         events_since w (session_enter w) = [Open] \<and>
         (case r of
            Inr v \<Rightarrow> session body w = (Inr v, session_exit w') \<and>
                     \<not> is_open (session_exit w') \<and>
                     keep_open (session_exit w') = Some False \<and>
                     events_since w' (session_exit w') = [Close]
          | Inl e \<Rightarrow> session body w = (Inl e, w'))"
  using assms
  by (simp add: session_def session_enter_def session_exit_def transport_open_def
      transport_close_def events_since_def split: sum.splits)

theorem session_lifecycle_witness:
  "session (client_execute ''show tables'') idle_world =
     (Inr (), idle_world\<lparr>keep_open := Some False,
                          trace := [Open, Execute ''show tables'', Close]\<rparr>)"
  using session_lifecycle [of "client_execute ''show tables''" idle_world "Inr ()"
      "idle_world\<lparr>is_open := True, keep_open := Some True,
         trace := [Open, Execute ''show tables'']\<rparr>"]
  by (simp add: idle_world_def session_enter_def session_exit_def transport_open_def
      transport_close_def client_execute_def)

text \<open>
  C3 as stated fails: after a session whose block raises, the transport is open,
  \<^verbatim>\<open>keep_open\<close> is still true and the trace holds no close.
\<close>

theorem session_raise_counterexample:
  "fst (session (raises AssertionError :: unit io) idle_world) = Inl AssertionError \<and>
   is_open (snd (session (raises AssertionError :: unit io) idle_world)) \<and>
   keep_open (snd (session (raises AssertionError :: unit io) idle_world)) = Some True \<and>
   trace (snd (session (raises AssertionError :: unit io) idle_world)) = [Open]"
  by (simp add: session_def session_enter_def raises_def idle_world_def transport_open_def)

subsection \<open>Operations inside a session\<close>

lemma transitions_append: "transitions (xs @ ys) = transitions xs @ transitions ys"
  by (simp add: transitions_def)

lemma transport_untouched_refl: "transport_untouched w w"
  by (simp add: transport_untouched_def events_since_def transitions_def)

lemma transport_untouched_trace:
  "transport_untouched w w' \<Longrightarrow> trace w' = trace w @ events_since w w'"
  by (metis append_take_drop_id events_since_def transport_untouched_def)

lemma transport_untouched_trans:
  assumes "transport_untouched w w1" and "transport_untouched w1 w2"
  shows "transport_untouched w w2"
proof -
  have t1: "trace w1 = trace w @ events_since w w1"
    using assms(1) by (rule transport_untouched_trace)
  have t2: "trace w2 = trace w1 @ events_since w1 w2"
    using assms(2) by (rule transport_untouched_trace)
  have t: "trace w2 = trace w @ (events_since w w1 @ events_since w1 w2)"
    using t1 t2 by simp
  have e: "events_since w w2 = events_since w w1 @ events_since w1 w2"
    by (subst (1) events_since_def, subst t) simp
  show ?thesis
    using assms t e
    by (simp add: transport_untouched_def transitions_append)
qed

lemma openclose_pinned:
  assumes "pinned w" and "remote_only operation"
  shows "openclose operation w = operation w"
proof -
  obtain r w' where run: "operation w = (r, w')" by (cases "operation w")
  from assms(2) have "transport_untouched w (snd (operation w))"
    by (simp add: remote_only_def)
  with run assms(1) have "pinned w'"
    by (simp add: transport_untouched_def pinned_def)
  with run assms(1) show ?thesis
    by (cases r) (simp_all add: openclose_def openclose_enter_def openclose_exit_def)
qed

lemma scoped_block_pinned:
  assumes "\<forall>operation \<in> set ops. remote_only operation" and "pinned w"
  shows "transport_untouched w (snd (scoped_block ops w))"
  using assms
proof (induction ops arbitrary: w)
  case Nil
  then show ?case by (simp add: transport_untouched_refl)
next
  case (Cons operation rest)
  obtain r w1 where run: "operation w = (r, w1)" by (cases "operation w")
  from Cons.prems have ro: "remote_only operation" by simp
  then have u1: "transport_untouched w w1"
    using run by (metis remote_only_def snd_conv)
  have oc: "openclose operation w = (r, w1)"
    using openclose_pinned [OF Cons.prems(2) ro] run by simp
  show ?case
  proof (cases r)
    case (Inl e)
    with oc u1 show ?thesis by simp
  next
    case (Inr u)
    from u1 Cons.prems(2) have "pinned w1"
      by (simp add: transport_untouched_def pinned_def)
    with Cons.IH [of w1] Cons.prems(1)
    have "transport_untouched w1 (snd (scoped_block rest w1))" by simp
    with u1 have "transport_untouched w (snd (scoped_block rest w1))"
      by (rule transport_untouched_trans)
    with oc Inr show ?thesis by simp
  qed
qed

lemma session_enter_facts:
  "is_open (session_enter w) \<and> pinned (session_enter w) \<and>
   trace (session_enter w) = trace w @ [Open]"
  by (simp add: session_enter_def transport_open_def pinned_def)

lemma inside_session:
  assumes "transport_untouched (session_enter w) w'"
  shows "is_open w' \<and> pinned w' \<and> transitions (events_since w w') = [Open] \<and>
         transitions (events_since w (session_exit w')) = [Open, Close] \<and>
         \<not> is_open (session_exit w') \<and> \<not> pinned (session_exit w')"
proof -
  have t: "trace w' = trace w @ Open # events_since (session_enter w) w'"
    using transport_untouched_trace [OF assms] session_enter_facts [of w] by simp
  have q: "transitions (events_since (session_enter w) w') = []"
    using assms by (simp add: transport_untouched_def)
  have e: "events_since w w' = Open # events_since (session_enter w) w'"
    by (subst (1) events_since_def, subst t) simp
  have e2: "events_since w (session_exit w') = Open # events_since (session_enter w) w' @ [Close]"
    by (subst (1) events_since_def) (simp add: session_exit_def transport_close_def t)
  have o: "is_open w' \<and> pinned w'"
    using assms session_enter_facts [of w] by (simp add: transport_untouched_def pinned_def)
  have tr1: "transitions (events_since w w') = [Open]"
    unfolding e using q by (simp add: transitions_def)
  have tr2: "transitions (events_since w (session_exit w')) = [Open, Close]"
    unfolding e2 using q by (simp add: transitions_def)
  show ?thesis
    using o tr1 tr2 by (simp add: session_exit_def transport_close_def pinned_def)
qed

text \<open>
  C6 (as amended). Inside a session, a block of any number of operations, each under its
  own \<^verbatim>\<open>openclose\<close> and each talking to the service only, performs no open and no
  close: after every prefix of the block the transport is open and pinned and the trace
  since the session's entry holds no transition. When the block returns, the whole session
  has performed one open and one close, and the transport is closed and no longer pinned.
  When an operation raises, the session has performed its open only, and the transport
  stays open and pinned.
\<close>

theorem session_nested_scopes:
  assumes "\<forall>operation \<in> set ops. remote_only operation"
  shows "(\<forall>n \<le> length ops.
            case scoped_block (take n ops) (session_enter w) of
              (r, wn) \<Rightarrow>
                is_open wn \<and> pinned wn \<and>
                transitions (events_since (session_enter w) wn) = []) \<and>
         (case session (scoped_block ops) w of
            (Inr u, w') \<Rightarrow>
              \<not> is_open w' \<and> \<not> pinned w' \<and> transitions (events_since w w') = [Open, Close]
          | (Inl e, w') \<Rightarrow>
              is_open w' \<and> pinned w' \<and> transitions (events_since w w') = [Open])"
proof
  show "\<forall>n \<le> length ops.
          case scoped_block (take n ops) (session_enter w) of
            (r, wn) \<Rightarrow>
              is_open wn \<and> pinned wn \<and>
              transitions (events_since (session_enter w) wn) = []"
  proof (intro allI impI)
    fix n
    have "\<forall>operation \<in> set (take n ops). remote_only operation"
      using assms by (meson in_set_takeD)
    then have u: "transport_untouched (session_enter w)
                    (snd (scoped_block (take n ops) (session_enter w)))"
      using session_enter_facts [of w] by (simp add: scoped_block_pinned)
    from inside_session [OF u] u
    show "case scoped_block (take n ops) (session_enter w) of
            (r, wn) \<Rightarrow>
              is_open wn \<and> pinned wn \<and>
              transitions (events_since (session_enter w) wn) = []"
      by (simp add: transport_untouched_def case_prod_unfold)
  qed
next
  have u: "transport_untouched (session_enter w) (snd (scoped_block ops (session_enter w)))"
    using assms session_enter_facts [of w] by (simp add: scoped_block_pinned)
  obtain r w' where run: "scoped_block ops (session_enter w) = (r, w')"
    by (cases "scoped_block ops (session_enter w)")
  from inside_session [OF u] run
  show "case session (scoped_block ops) w of
          (Inr u, w') \<Rightarrow>
            \<not> is_open w' \<and> \<not> pinned w' \<and> transitions (events_since w w') = [Open, Close]
        | (Inl e, w') \<Rightarrow>
            is_open w' \<and> pinned w' \<and> transitions (events_since w w') = [Open]"
    by (cases r) (simp_all add: session_def)
qed

lemma remote_only_client_execute: "remote_only (client_execute q)"
  by (simp add: remote_only_def transport_untouched_def client_execute_def events_since_def
      transitions_def)

theorem session_nested_scopes_witness:
  "transitions (events_since idle_world
      (snd (session (scoped_block [client_execute ''show tables'', client_execute ''show databases''])
              idle_world))) = [Open, Close] \<and>
   trace (snd (session (scoped_block [client_execute ''show tables'', client_execute ''show databases''])
              idle_world)) = [Open, Execute ''show tables'', Execute ''show databases'', Close]"
  using session_nested_scopes
    [of "[client_execute ''show tables'', client_execute ''show databases'']" idle_world]
  by (simp add: remote_only_def transport_untouched_def client_execute_def events_since_def
      transitions_def session_def session_enter_def session_exit_def transport_open_def
      transport_close_def openclose_def openclose_enter_def openclose_exit_def pinned_def
      idle_world_def)

text \<open>
  C6 as stated fails: when the second operation of a session raises, the session ends with
  the transport open, and its only transition is the open.
\<close>

theorem session_nested_raise_counterexample:
  "fst (session (scoped_block [client_execute ''show tables'', raises AssertionError]) idle_world)
     = Inl AssertionError \<and>
   is_open (snd (session (scoped_block [client_execute ''show tables'', raises AssertionError])
                   idle_world)) \<and>
   transitions (trace (snd (session (scoped_block [client_execute ''show tables'',
                   raises AssertionError]) idle_world))) = [Open]"
  by (simp add: raises_def client_execute_def transitions_def session_def session_enter_def
      transport_open_def openclose_def openclose_enter_def openclose_exit_def pinned_def
      idle_world_def)

section \<open>Construction\<close>

text \<open>
  C8 (as amended). Construction opens the transport once and asks once for the configured
  database. When the answer is a true value, it closes the transport again and the client
  exists. When the service raises or answers with a false value, construction fails, no
  client exists, and the transport that was opened for the check stays open.
\<close>

theorem init_checks_database:
  "(databases w db = Inr True \<longrightarrow>
      init server port db w =
        (Inr \<lparr>db_name = db\<rparr>,
         w\<lparr>is_open := False, keep_open := None,
           trace := trace w @ [Open, GetDatabase db, Close]\<rparr>)) \<and>
   (databases w db \<noteq> Inr True \<longrightarrow>
      (\<exists>e. fst (init server port db w) = Inl e) \<and>
      snd (init server port db w) =
        w\<lparr>is_open := True, keep_open := None, trace := trace w @ [Open, GetDatabase db]\<rparr>)"
  by (auto simp add: init_def openclose_def openclose_enter_def openclose_exit_def pinned_def
      transport_open_def transport_close_def client_get_database_def
      split: sum.splits prod.splits)

theorem init_checks_database_witness:
  "init ''localhost'' 10001 ''default'' idle_world =
     (Inr \<lparr>db_name = ''default''\<rparr>,
      idle_world\<lparr>trace := [Open, GetDatabase ''default'', Close]\<rparr>) \<and>
   snd (init ''localhost'' 10001 ''nodb'' idle_world) =
      idle_world\<lparr>is_open := True, trace := [Open, GetDatabase ''nodb'']\<rparr>"
  using init_checks_database [of idle_world "''default''" "''localhost''" 10001]
    init_checks_database [of idle_world "''nodb''" "''localhost''" 10001]
  by (simp add: idle_world_def)

text \<open>
  C8 as stated fails: construction for a database the service does not know fails with the
  service's exception, and the transport is left open, with no close in the trace.
\<close>

theorem init_absent_database_counterexample:
  "fst (init ''localhost'' 10001 ''nodb'' idle_world) = Inl no_such_object \<and>
   is_open (snd (init ''localhost'' 10001 ''nodb'' idle_world)) \<and>
   trace (snd (init ''localhost'' 10001 ''nodb'' idle_world)) = [Open, GetDatabase ''nodb'']"
  by (simp add: init_def openclose_def openclose_enter_def pinned_def transport_open_def
      client_get_database_def idle_world_def)

section \<open>Removing and adding columns\<close>

lemma filter_never_longer:
  "int (length (filter P xs)) - 1 \<noteq> int (length xs)"
  using length_filter_le [of P xs] by linarith

text \<open>
  The test \<^verbatim>\<open>(len(table.sd.cols) - 1) == num_cols\<close> compares the filtered length minus
  one with the length before filtering, which never holds: \<^verbatim>\<open>remove_column\<close> raises for
  every table it can fetch and submits nothing.
\<close>

lemma remove_column_never_submits:
  "submits (events_since w (snd (remove_column self t c w))) = []"
  by (simp add: remove_column_def openclose_def openclose_enter_def openclose_exit_def
      pinned_def transport_open_def transport_close_def client_get_table_def Let_def
      events_since_def filter_never_longer split: sum.splits prod.splits)

lemma remove_column_always_raises:
  "\<exists>e. fst (remove_column self t c w) = Inl e"
  by (simp add: remove_column_def openclose_def openclose_enter_def
      pinned_def transport_open_def client_get_table_def Let_def
      filter_never_longer split: sum.splits prod.splits)

text \<open>
  C4. The claim asks \<^verbatim>\<open>remove_column\<close> to submit the schema without the column when
  the column exists. The code does not: for the table \<^verbatim>\<open>t\<close> with the single column
  \<^verbatim>\<open>x\<close>, removing \<^verbatim>\<open>x\<close> raises the exception for a column that does not exist
  and no \<^verbatim>\<open>alter_table\<close> is called.
\<close>

theorem remove_column_existing_raises:
  "remove_column \<lparr>db_name = ''default''\<rparr> ''t'' ''x'' idle_world =
     (Inl (HiveClientException [''Table t does not have column x'']),
      idle_world\<lparr>is_open := True, trace := [Open, GetTable ''default'' ''t'']\<rparr>)"
  by (simp add: remove_column_def openclose_def openclose_enter_def pinned_def
      transport_open_def client_get_table_def idle_world_def Let_def)

text \<open>
  A string is never a member of a list of column objects, so \<^verbatim>\<open>add_column\<close> never
  raises its own exception.
\<close>

lemma str_not_in_columns:
  "\<not> py_in (PyStr c) (map PyFieldSchema cols)"
  by (auto simp add: py_in_def)

lemma add_column_never_refuses:
  "tables w (db_name self) t = Inr table \<Longrightarrow> fst (add_column self t c ty cm w) = Inr ()"
  by (simp add: add_column_def openclose_def openclose_enter_def transport_open_def
      client_get_table_def str_not_in_columns Let_def)

text \<open>
  C5. The claim asks \<^verbatim>\<open>add_column\<close> to fail and to submit nothing when the table has a
  column of that name. The code does not: adding \<^verbatim>\<open>y\<close> to the table \<^verbatim>\<open>t\<close> with the
  column \<^verbatim>\<open>x\<close> submits \<^verbatim>\<open>x, y\<close>, and adding \<^verbatim>\<open>y\<close> again returns normally and
  submits \<^verbatim>\<open>x, y, y\<close>.
\<close>

theorem add_column_twice_submits_duplicate:
  "fst (add_column \<lparr>db_name = ''default''\<rparr> ''t'' ''y'' ''string'' ''''
          (snd (add_column \<lparr>db_name = ''default''\<rparr> ''t'' ''y'' ''string'' '''' idle_world)))
     = Inr () \<and>
   submits (trace (snd (add_column \<lparr>db_name = ''default''\<rparr> ''t'' ''y'' ''string'' ''''
          (snd (add_column \<lparr>db_name = ''default''\<rparr> ''t'' ''y'' ''string'' '''' idle_world)))))
     = [[\<lparr>fs_name = ''x'', fs_type = ''int'', fs_comment = ''''\<rparr>,
         \<lparr>fs_name = ''y'', fs_type = ''string'', fs_comment = ''''\<rparr>],
        [\<lparr>fs_name = ''x'', fs_type = ''int'', fs_comment = ''''\<rparr>,
         \<lparr>fs_name = ''y'', fs_type = ''string'', fs_comment = ''''\<rparr>,
         \<lparr>fs_name = ''y'', fs_type = ''string'', fs_comment = ''''\<rparr>]]"
  by (simp add: add_column_def openclose_def openclose_enter_def openclose_exit_def
      pinned_def transport_open_def transport_close_def client_get_table_def
      client_alter_table_def py_in_def idle_world_def Let_def)

section \<open>Query results\<close>

text \<open>
  C1. The service reports the field names \<^verbatim>\<open>a, b\<close>, answers the first fetch with the
  rows \<^verbatim>\<open>1<TAB>2\<close> and \<^verbatim>\<open>3<TAB>4\<close> and the second with the empty batch; what it would
  answer to later fetches is left open. A consumer that takes every record of
  \<^verbatim>\<open>execute\<close> gets exactly the two records, in that order, and the iteration ends with
  no exception after three calls of \<^verbatim>\<open>next\<close>. The trace is the open, the query, the
  schema request, two fetches of 500 and the close: no fetch follows the empty batch.
\<close>

theorem execute_two_rows:
  "drain (3 + k) (execute q)
     (w\<lparr>is_open := False, keep_open := None, trace := [],
        query_fault := (\<lambda>q. None),
        field_names := [''a'', ''b''],
        fetch_reply := (\<lambda>i. if i = 0 then [[CHR ''1'', tab, CHR ''2''], [CHR ''3'', tab, CHR ''4'']]
                              else if i = 1 then [] else later i),
        fetched := 0\<rparr>) =
   Some ([[''a'' \<mapsto> ''1'', ''b'' \<mapsto> ''2''], [''a'' \<mapsto> ''3'', ''b'' \<mapsto> ''4'']], None,
         w\<lparr>is_open := False, keep_open := None,
           trace := [Open, Execute q, GetThriftSchema, FetchN 500, FetchN 500, Close],
           query_fault := (\<lambda>q. None),
           field_names := [''a'', ''b''],
           fetch_reply := (\<lambda>i. if i = 0 then [[CHR ''1'', tab, CHR ''2''], [CHR ''3'', tab, CHR ''4'']]
                              else if i = 1 then [] else later i),
           fetched := 2\<rparr>)"
  by (simp add: numeral_3_eq_3 execute_def fetch_batch_def client_execute_def
      client_getThriftSchema_def client_fetchN_def openclose_enter_def openclose_exit_def
      pinned_def transport_open_def transport_close_def row_dict_def tab_def)

subsection \<open>The records of a query\<close>

lemma dom_row_dict:
  "dom (row_dict stypes row) = set (take (length (py_split tab row)) stypes)"
proof -
  have "dom (row_dict stypes row) = fst ` set (zip stypes (py_split tab row))"
    by (simp add: row_dict_def dom_map_of_conv_image_fst)
  also have "\<dots> = set (map fst (zip stypes (py_split tab row)))"
    by simp
  also have "\<dots> = set (take (length (py_split tab row)) stypes)"
    by (simp only: map_fst_zip_take) (simp add: min_def)
  finally show ?thesis .
qed

lemma dict_len_row_dict:
  assumes "distinct stypes" and "length stypes \<le> length (py_split tab row)"
  shows "dict_len (row_dict stypes row) = length stypes"
  using assms by (simp add: dict_len_def dom_row_dict distinct_card)

lemma fetch_batch_yield:
  assumes "fetch_batch stypes w = (Yield r, g', w')"
  shows "\<exists>row rest. fetch_reply w (fetched w) = row # rest \<and> r = row_dict stypes row \<and>
           g' = Suspended stypes rest"
  using assms
  by (auto simp add: fetch_batch_def client_fetchN_def split: list.splits)

lemma gen_next_yield:
  assumes "gen_next g w = (Yield r, g', w')"
  shows "\<exists>stypes row rest. g' = Suspended stypes rest \<and> r = row_dict stypes row \<and>
           (row # rest = buffered g \<or> row # rest = fetch_reply w (fetched w)) \<and>
           stypes = (case names_of g of Some names \<Rightarrow> names | None \<Rightarrow> field_names w)"
proof (cases g)
  case (Created q)
  with assms show ?thesis
    by (auto simp add: client_execute_def client_getThriftSchema_def openclose_enter_def
        transport_open_def split: sum.splits option.splits if_splits dest!: fetch_batch_yield)
next
  case (Suspended stypes rows)
  with assms show ?thesis
    by (cases rows) (auto dest!: fetch_batch_yield)
next
  case Finished
  with assms show ?thesis by simp
qed

text \<open>
  C9 (as amended). A record that \<^verbatim>\<open>next\<close> yields is built from one row of the
  generator's buffer or of the batch just fetched, and from the generator's field names:
  the names the generator already held, or the names the service reports when the
  generator starts. The generator goes on holding the same names. The keys of the record
  are the first names, as many as the row has tab-separated values. So it has exactly as
  many entries as there are names when the names are distinct and the row has at least as
  many values as there are names; values beyond the names are dropped.
\<close>

theorem yielded_record_fields:
  assumes "gen_next g w = (Yield r, g', w')"
  shows "\<exists>stypes row rest.
           g' = Suspended stypes rest \<and> r = row_dict stypes row \<and>
           (row # rest = buffered g \<or> row # rest = fetch_reply w (fetched w)) \<and>
           stypes = (case names_of g of Some names \<Rightarrow> names | None \<Rightarrow> field_names w) \<and>
           dom r = set (take (length (py_split tab row)) stypes) \<and>
           (distinct stypes \<and> length stypes \<le> length (py_split tab row)
              \<longrightarrow> dict_len r = length stypes)"
proof -
  from gen_next_yield [OF assms] obtain stypes row rest where
    h: "g' = Suspended stypes rest" "r = row_dict stypes row"
       "row # rest = buffered g \<or> row # rest = fetch_reply w (fetched w)"
       "stypes = (case names_of g of Some names \<Rightarrow> names | None \<Rightarrow> field_names w)"
    by blast
  have "dom r = set (take (length (py_split tab row)) stypes)"
    using h(2) by (simp add: dom_row_dict)
  moreover have "distinct stypes \<and> length stypes \<le> length (py_split tab row)
      \<longrightarrow> dict_len r = length stypes"
    using h(2) by (simp add: dict_len_row_dict)
  ultimately show ?thesis using h by blast
qed

theorem yielded_record_fields_witness:
  "gen_next (Suspended [''a'', ''b''] [[CHR ''1'', tab, CHR ''2'', tab, CHR ''3'']]) idle_world =
     (Yield [''a'' \<mapsto> ''1'', ''b'' \<mapsto> ''2''], Suspended [''a'', ''b''] [], idle_world) \<and>
   dict_len [''a'' \<mapsto> ''1'', ''b'' \<mapsto> ''2''] = 2"
proof -
  have run: "gen_next (Suspended [''a'', ''b''] [[CHR ''1'', tab, CHR ''2'', tab, CHR ''3'']]) idle_world =
     (Yield [''a'' \<mapsto> ''1'', ''b'' \<mapsto> ''2''], Suspended [''a'', ''b''] [], idle_world)"
    by (simp add: row_dict_def tab_def)
  from yielded_record_fields [OF run] obtain stypes row rest where
    h: "Suspended [''a'', ''b''] [] = Suspended stypes rest"
       "row # rest = buffered (Suspended [''a'', ''b''] [[CHR ''1'', tab, CHR ''2'', tab, CHR ''3'']])
          \<or> row # rest = fetch_reply idle_world (fetched idle_world)"
       "distinct stypes \<and> length stypes \<le> length (py_split tab row)
          \<longrightarrow> dict_len [''a'' \<mapsto> ''1'', ''b'' \<mapsto> ''2''] = length stypes"
    by blast
  from h(1) have s: "stypes = [''a'', ''b'']" by simp
  from h(2) have r: "row = [CHR ''1'', tab, CHR ''2'', tab, CHR ''3'']"
    by (simp add: idle_world_def)
  from h(3) have "dict_len [''a'' \<mapsto> ''1'', ''b'' \<mapsto> ''2''] = 2"
    unfolding s r by (simp add: tab_def)
  with run show ?thesis by simp
qed

text \<open>
  C9 as stated fails: with the field names \<^verbatim>\<open>a, b\<close> and the row \<^verbatim>\<open>1\<close>, which has
  one value, the yielded record has the single entry for \<^verbatim>\<open>a\<close>.
\<close>

theorem short_row_counterexample:
  "fst (gen_next (execute ''select a, b from t'')
          (idle_world\<lparr>field_names := [''a'', ''b''], fetch_reply := (\<lambda>i. [''1''])\<rparr>))
     = Yield [''a'' \<mapsto> ''1''] \<and>
   dict_len [''a'' \<mapsto> ''1''] = 1 \<and>
   length (field_names (idle_world\<lparr>field_names := [''a'', ''b''], fetch_reply := (\<lambda>i. [''1''])\<rparr>)) = 2"
  by (simp add: execute_def fetch_batch_def client_execute_def
      client_getThriftSchema_def client_fetchN_def openclose_enter_def
      pinned_def transport_open_def row_dict_def tab_def idle_world_def dict_len_def)

subsection \<open>One record at a time\<close>

lemma fetches_append: "fetches (xs @ ys) = fetches xs @ fetches ys"
  by (induction xs rule: fetches.induct) simp_all

lemma fetch_batch_step:
  "case fetch_batch stypes w of (res, g', w') \<Rightarrow>
     fetches (events_since w w') = [500] \<and>
     buffered g' = tl (fetch_reply w (fetched w)) \<and>
     (\<forall>q. g' \<noteq> Created q)"
  by (simp add: fetch_batch_def client_fetchN_def events_since_def openclose_exit_def
      transport_close_def split: list.splits)

lemma fetch_batch_after:
  "trace w1 = trace w @ es \<Longrightarrow> fetches es = [] \<Longrightarrow> fetch_reply w1 = fetch_reply w \<Longrightarrow>
   fetched w1 = fetched w \<Longrightarrow>
   (case fetch_batch stypes w1 of (res, g', w') \<Rightarrow>
     fetches (events_since w w') = [500] \<and>
     buffered g' = tl (fetch_reply w (fetched w)) \<and>
     (\<forall>q. g' \<noteq> Created q))"
  by (simp add: fetch_batch_def client_fetchN_def events_since_def openclose_exit_def
      transport_close_def fetches_append split: list.splits)

text \<open>
  C10. \<^verbatim>\<open>execute\<close> returns a generator and runs nothing. One call of \<^verbatim>\<open>next\<close> gives at
  most one record and asks the service for at most one batch. While rows are buffered it
  asks for none and leaves the world as it is: it only takes the first buffered row. Only
  when the buffer is empty does it fetch, and then the buffer holds the rest of that one
  batch. No call leads back to a generator that has not started, and a finished generator
  stays finished without touching the world.
\<close>

theorem generator_lazy_forward_only:
  "(case gen_next g w of
      (res, g', w') \<Rightarrow>
        length (fetches (events_since w w')) \<le> 1 \<and>
        (\<forall>q. g' \<noteq> Created q) \<and>
        (case buffered g of
           row # rest \<Rightarrow> w' = w \<and> buffered g' = rest
         | [] \<Rightarrow> buffered g' = [] \<or> buffered g' = tl (fetch_reply w (fetched w)))) \<and>
   gen_next Finished w = (StopIteration, Finished, w)"
proof (cases g)
  case (Created q)
  show ?thesis
  proof (cases "query_fault w q")
    case None
    have "case fetch_batch (field_names w)
                 ((openclose_enter w)\<lparr>trace := trace (openclose_enter w) @ [Execute q, GetThriftSchema]\<rparr>) of
            (res, g', w') \<Rightarrow>
              fetches (events_since w w') = [500] \<and>
              buffered g' = tl (fetch_reply w (fetched w)) \<and> (\<forall>q. g' \<noteq> Created q)"
      by (rule fetch_batch_after [where es = "(if pinned w then [] else [Open]) @ [Execute q, GetThriftSchema]"])
         (simp_all add: openclose_enter_def transport_open_def)
    with Created None show ?thesis
      by (auto simp add: client_execute_def client_getThriftSchema_def
          openclose_enter_def transport_open_def split: prod.splits)
  next
    case (Some e)
    with Created show ?thesis
      by (simp add: client_execute_def events_since_def openclose_enter_def transport_open_def)
  qed
next
  case (Suspended stypes rows)
  show ?thesis
  proof (cases rows)
    case Nil
    with Suspended fetch_batch_step [where stypes = stypes and w = w] show ?thesis
      by (auto split: prod.splits)
  next
    case (Cons row rest)
    with Suspended show ?thesis by (simp add: events_since_def)
  qed
next
  case Finished
  then show ?thesis by (simp add: events_since_def)
qed

section \<open>Altering a column type\<close>

lemma submits_append: "submits (xs @ ys) = submits xs @ submits ys"
  by (induction xs rule: submits.induct) simp_all

lemma submits_alter_events: "submits (map (AlterTable d t) steps) = steps"
  by (induction steps) simp_all

lemma alter_each_result:
  "fst (alter_each d t ty idxs table w) = Inr () \<and>
   is_open (snd (alter_each d t ty idxs table w)) = is_open w \<and>
   keep_open (snd (alter_each d t ty idxs table w)) = keep_open w \<and>
   trace (snd (alter_each d t ty idxs table w)) =
     trace w @ map (AlterTable d t) (alter_steps ty idxs (sd_cols table))"
  by (induction idxs arbitrary: table w) (simp_all add: Let_def client_alter_table_def)

lemma length_alter_steps: "length (alter_steps ty idxs cols) = length idxs"
  by (induction idxs arbitrary: cols) simp_all

lemma last_alter_steps:
  "idxs \<noteq> [] \<Longrightarrow>
   last (alter_steps ty idxs cols) = fold (\<lambda>i cs. cs[i := (cs ! i)\<lparr>fs_type := ty\<rparr>]) idxs cols"
proof (induction idxs arbitrary: cols)
  case Nil
  then show ?case by simp
next
  case (Cons i rest)
  show ?case
  proof (cases rest)
    case Nil
    then show ?thesis by simp
  next
    case (Cons j more)
    then have "rest \<noteq> []" by simp
    from Cons.IH [OF this] show ?thesis
      using \<open>rest \<noteq> []\<close> by (cases rest) simp_all
  qed
qed

lemma length_fold_update:
  "length (fold (\<lambda>i cs. cs[i := f (cs ! i)]) idxs cols) = length cols"
  by (induction idxs arbitrary: cols) simp_all

lemma nth_fold_update:
  assumes "distinct idxs" and "j < length cols"
  shows "fold (\<lambda>i cs. cs[i := f (cs ! i)]) idxs cols ! j =
           (if j \<in> set idxs then f (cols ! j) else cols ! j)"
  using assms
proof (induction idxs arbitrary: cols)
  case Nil
  then show ?case by simp
next
  case (Cons i rest)
  from Cons.prems have d: "distinct rest" and ni: "i \<notin> set rest" by simp_all
  have l: "j < length (cols[i := f (cols ! i)])" using Cons.prems by simp
  show ?case
  proof (cases "j = i")
    case True
    with Cons.IH [OF d l] ni Cons.prems(2) show ?thesis by simp
  next
    case False
    with Cons.IH [OF d l] Cons.prems(2) show ?thesis by simp
  qed
qed

lemma fold_retype:
  "fold (\<lambda>i cs. cs[i := (cs ! i)\<lparr>fs_type := ty\<rparr>])
     (filter (\<lambda>i. fs_name (cols ! i) = c \<and> fs_type (cols ! i) \<noteq> ty) [0..<length cols]) cols
   = retyped c ty cols"
proof (rule nth_equalityI)
  show "length (fold (\<lambda>i cs. cs[i := (cs ! i)\<lparr>fs_type := ty\<rparr>])
          (filter (\<lambda>i. fs_name (cols ! i) = c \<and> fs_type (cols ! i) \<noteq> ty) [0..<length cols]) cols)
        = length (retyped c ty cols)"
    by (simp add: length_fold_update retyped_def)
next
  fix j
  assume "j < length (fold (\<lambda>i cs. cs[i := (cs ! i)\<lparr>fs_type := ty\<rparr>])
          (filter (\<lambda>i. fs_name (cols ! i) = c \<and> fs_type (cols ! i) \<noteq> ty) [0..<length cols]) cols)"
  then have j: "j < length cols" by (simp add: length_fold_update)
  have same: "fs_type (cols ! j) = ty \<Longrightarrow> (cols ! j)\<lparr>fs_type := ty\<rparr> = cols ! j"
    by auto
  show "fold (\<lambda>i cs. cs[i := (cs ! i)\<lparr>fs_type := ty\<rparr>])
          (filter (\<lambda>i. fs_name (cols ! i) = c \<and> fs_type (cols ! i) \<noteq> ty) [0..<length cols]) cols ! j
        = retyped c ty cols ! j"
    using j same
    by (subst nth_fold_update) (auto simp add: retyped_def)
qed

lemma length_filter_positions:
  "length (filter (\<lambda>i. Q (cols ! i)) [0..<length cols]) = length (filter Q cols)"
proof -
  have "filter Q (map ((!) cols) [0..<length cols]) =
          map ((!) cols) (filter (Q \<circ> (!) cols) [0..<length cols])"
    by (rule filter_map)
  then have "length (filter Q cols) = length (filter (Q \<circ> (!) cols) [0..<length cols])"
    by (simp add: map_nth)
  then show ?thesis by (simp add: comp_def)
qed

lemma positions_empty_iff:
  "filter (\<lambda>i. Q (cols ! i)) [0..<length cols] = [] \<longleftrightarrow> (\<forall>col \<in> set cols. \<not> Q col)"
proof -
  have "filter (\<lambda>i. Q (cols ! i)) [0..<length cols] = [] \<longleftrightarrow>
          length (filter Q cols) = 0"
    using length_filter_positions [of Q cols] by (metis length_0_conv)
  then show ?thesis by (simp add: filter_empty_conv)
qed

lemma alter_column_type_found:
  assumes tbl: "tables w (db_name self) t = Inr table"
    and c: "c \<in> set (map fs_name (sd_cols table))"
  shows "fst (alter_column_type self t c ty cm w) = Inr () \<and>
         submits (events_since w (snd (alter_column_type self t c ty cm w))) =
           alter_steps ty
             (filter (\<lambda>i. fs_name (sd_cols table ! i) = c \<and> fs_type (sd_cols table ! i) \<noteq> ty)
                [0..<length (sd_cols table)])
             (sd_cols table)"
proof -
  let ?d = "db_name self"
  let ?idxs = "filter (\<lambda>i. fs_name (sd_cols table ! i) = c \<and> fs_type (sd_cols table ! i) \<noteq> ty)
                 [0..<length (sd_cols table)]"
  let ?pre = "if pinned w then [] else [Open]"
  let ?steps = "alter_steps ty ?idxs (sd_cols table)"
  define w1 where "w1 = (openclose_enter w)\<lparr>trace := trace (openclose_enter w) @ [GetTable ?d t]\<rparr>"
  define w2 where "w2 = snd (alter_each ?d t ty ?idxs table w1)"
  have tb: "tables (openclose_enter w) ?d t = Inr table"
    using tbl by (simp add: openclose_enter_def transport_open_def)
  have t1: "trace w1 = trace w @ ?pre @ [GetTable ?d t]"
    by (simp add: w1_def openclose_enter_def transport_open_def)
  have k1: "keep_open w1 = keep_open w"
    by (simp add: w1_def openclose_enter_def transport_open_def)
  note r = alter_each_result [of ?d t ty ?idxs table w1]
  have ok: "fst (alter_each ?d t ty ?idxs table w1) = Inr ()"
    using r by simp
  have eq: "alter_column_type self t c ty cm w = (Inr (), openclose_exit w2)"
    using tb c ok
    by (simp add: alter_column_type_def openclose_def client_get_table_def Let_def
        case_prod_unfold w1_def [symmetric] w2_def [symmetric])
  have p: "pinned w2 = pinned w"
    using r k1 by (simp add: pinned_def w2_def)
  have t2: "trace w2 = trace w @ ?pre @ [GetTable ?d t] @ map (AlterTable ?d t) ?steps"
    using r t1 by (simp add: w2_def)
  have tr: "trace (openclose_exit w2) =
              trace w @ (?pre @ [GetTable ?d t] @ map (AlterTable ?d t) ?steps
                @ (if pinned w then [] else [Close]))"
    using t2 p by (simp add: openclose_exit_def transport_close_def)
  have "events_since w (openclose_exit w2) =
          ?pre @ [GetTable ?d t] @ map (AlterTable ?d t) ?steps
            @ (if pinned w then [] else [Close])"
    by (subst events_since_def, subst tr) simp
  then have "submits (events_since w (openclose_exit w2)) = ?steps"
    by (simp add: submits_append submits_alter_events)
  with eq show ?thesis by simp
qed

lemma alter_column_type_absent:
  assumes "tables w (db_name self) t = Inr table"
    and "c \<notin> set (map fs_name (sd_cols table))"
  shows "fst (alter_column_type self t c ty cm w) =
           Inl (HiveClientException [''Table %s does not have column %s'', t, c]) \<and>
         submits (events_since w (snd (alter_column_type self t c ty cm w))) = []"
  using assms
  by (simp add: alter_column_type_def openclose_def openclose_enter_def transport_open_def
      client_get_table_def Let_def events_since_def)

text \<open>
  C7. For a table the service returns: when no column has the given name,
  \<^verbatim>\<open>alter_column_type\<close> raises the exception for a column that does not exist (the
  specification's \<^verbatim>\<open>ColumnNotFoundError\<close>) and submits nothing. When a column of that
  name has another type, it returns normally after one submit for each such column, and
  the last schema submitted is the table's with the requested type in every column of that
  name. When the name is present and every column of that name has the requested type
  already, it returns normally and submits nothing.
\<close>

theorem alter_column_type_cases:
  assumes "tables w (db_name self) t = Inr table"
  shows "(c \<notin> set (map fs_name (sd_cols table)) \<longrightarrow>
            fst (alter_column_type self t c ty cm w) =
              Inl (HiveClientException [''Table %s does not have column %s'', t, c]) \<and>
            submits (events_since w (snd (alter_column_type self t c ty cm w))) = []) \<and>
         ((\<exists>col \<in> set (sd_cols table). fs_name col = c \<and> fs_type col \<noteq> ty) \<longrightarrow>
            fst (alter_column_type self t c ty cm w) = Inr () \<and>
            submits (events_since w (snd (alter_column_type self t c ty cm w))) \<noteq> [] \<and>
            length (submits (events_since w (snd (alter_column_type self t c ty cm w)))) =
              length (filter (\<lambda>col. fs_name col = c \<and> fs_type col \<noteq> ty) (sd_cols table)) \<and>
            last (submits (events_since w (snd (alter_column_type self t c ty cm w)))) =
              retyped c ty (sd_cols table)) \<and>
         (c \<in> set (map fs_name (sd_cols table)) \<and>
          (\<forall>col \<in> set (sd_cols table). fs_name col = c \<longrightarrow> fs_type col = ty) \<longrightarrow>
            fst (alter_column_type self t c ty cm w) = Inr () \<and>
            submits (events_since w (snd (alter_column_type self t c ty cm w))) = [])"
proof (intro conjI impI)
  assume "c \<notin> set (map fs_name (sd_cols table))"
  from alter_column_type_absent [OF assms this]
  show "fst (alter_column_type self t c ty cm w) =
          Inl (HiveClientException [''Table %s does not have column %s'', t, c])"
    and "submits (events_since w (snd (alter_column_type self t c ty cm w))) = []"
    by simp_all
next
  let ?Q = "\<lambda>col. fs_name col = c \<and> fs_type col \<noteq> ty"
  let ?idxs = "filter (\<lambda>i. ?Q (sd_cols table ! i)) [0..<length (sd_cols table)]"
  let ?subs = "submits (events_since w (snd (alter_column_type self t c ty cm w)))"
  assume ex: "\<exists>col \<in> set (sd_cols table). fs_name col = c \<and> fs_type col \<noteq> ty"
  then have c: "c \<in> set (map fs_name (sd_cols table))" by auto
  note found = alter_column_type_found [OF assms c, of ty cm]
  from ex have ne: "?idxs \<noteq> []"
    using positions_empty_iff [of ?Q "sd_cols table"] by blast
  have subs: "?subs = alter_steps ty ?idxs (sd_cols table)"
    using found by simp
  show "fst (alter_column_type self t c ty cm w) = Inr ()"
    using found by simp
  show "?subs \<noteq> []"
    using ne length_alter_steps [of ty ?idxs "sd_cols table"] subs by auto
  show "length ?subs = length (filter ?Q (sd_cols table))"
    using subs length_alter_steps [of ty ?idxs "sd_cols table"]
      length_filter_positions [of ?Q "sd_cols table"] by simp
  show "last ?subs = retyped c ty (sd_cols table)"
    using subs last_alter_steps [OF ne, of ty "sd_cols table"]
      fold_retype [of ty "sd_cols table" c] by simp
next
  let ?Q = "\<lambda>col. fs_name col = c \<and> fs_type col \<noteq> ty"
  let ?idxs = "filter (\<lambda>i. ?Q (sd_cols table ! i)) [0..<length (sd_cols table)]"
  assume h: "c \<in> set (map fs_name (sd_cols table)) \<and>
             (\<forall>col \<in> set (sd_cols table). fs_name col = c \<longrightarrow> fs_type col = ty)"
  then have c: "c \<in> set (map fs_name (sd_cols table))" by simp
  note found = alter_column_type_found [OF assms c, of ty cm]
  from h have "?idxs = []"
    using positions_empty_iff [of ?Q "sd_cols table"] by blast
  with found
  show "fst (alter_column_type self t c ty cm w) = Inr ()"
    and "submits (events_since w (snd (alter_column_type self t c ty cm w))) = []"
    by simp_all
qed

theorem alter_column_type_cases_witness:
  "fst (alter_column_type \<lparr>db_name = ''default''\<rparr> ''t'' ''z'' ''string'' '''' idle_world) =
     Inl (HiveClientException [''Table %s does not have column %s'', ''t'', ''z'']) \<and>
   submits (events_since idle_world
      (snd (alter_column_type \<lparr>db_name = ''default''\<rparr> ''t'' ''x'' ''string'' '''' idle_world))) =
     [[\<lparr>fs_name = ''x'', fs_type = ''string'', fs_comment = ''''\<rparr>]] \<and>
   submits (events_since idle_world
      (snd (alter_column_type \<lparr>db_name = ''default''\<rparr> ''t'' ''x'' ''int'' '''' idle_world))) = []"
proof -
  let ?self = "\<lparr>db_name = ''default''\<rparr>"
  let ?x = "\<lparr>fs_name = ''x'', fs_type = ''int'', fs_comment = ''''\<rparr>"
  have tbl: "tables idle_world (db_name ?self) ''t'' = Inr \<lparr>sd_cols = [?x]\<rparr>"
    by (simp add: idle_world_def)
  note absent = alter_column_type_cases [OF tbl, of "''z''" "''string''" "''''"]
  note differs = alter_column_type_cases [OF tbl, of "''x''" "''string''" "''''"]
  note same = alter_column_type_cases [OF tbl, of "''x''" "''int''" "''''"]
  have a: "fst (alter_column_type ?self ''t'' ''z'' ''string'' '''' idle_world) =
             Inl (HiveClientException [''Table %s does not have column %s'', ''t'', ''z''])"
    using absent by simp
  have l: "length (submits (events_since idle_world
             (snd (alter_column_type ?self ''t'' ''x'' ''string'' '''' idle_world)))) = 1"
    and la: "last (submits (events_since idle_world
             (snd (alter_column_type ?self ''t'' ''x'' ''string'' '''' idle_world)))) =
             [\<lparr>fs_name = ''x'', fs_type = ''string'', fs_comment = ''''\<rparr>]"
    using differs by (simp_all add: retyped_def)
  have d: "submits (events_since idle_world
             (snd (alter_column_type ?self ''t'' ''x'' ''string'' '''' idle_world))) =
           [[\<lparr>fs_name = ''x'', fs_type = ''string'', fs_comment = ''''\<rparr>]]"
    using l la
    by (cases "submits (events_since idle_world
             (snd (alter_column_type ?self ''t'' ''x'' ''string'' '''' idle_world)))") simp_all
  have s: "submits (events_since idle_world
             (snd (alter_column_type ?self ''t'' ''x'' ''int'' '''' idle_world))) = []"
    using same by simp
  from a d s show ?thesis by simp
qed

end
